theory Spec2Isabelle
  imports Main
begin

section \<open>The IR seen by the pass\<close>

text \<open>
  \<^verbatim>\<open>lib/llvmopencl/ImplicitLoopBarriers.cc\<close> is a loop pass over LLVM IR. Pointers to
  basic blocks, functions and values are addresses; the blocks live in a store that maps
  a block address to the block, so that the header and the exiting block of a loop may be
  one and the same block.
\<close>

type_synonym bid = nat
type_synonym fid = nat
type_synonym vid = nat

text \<open>
  The instructions the pass tells apart: phi nodes, the barrier marker
  (\<^verbatim>\<open>isa<Barrier>\<close>), the two forms of \<^verbatim>\<open>BranchInst\<close>, any other terminator
  with its successors (ret, switch, ...), and any other instruction.
\<close>

datatype instr =
    PHI vid
  | Barrier
  | Other vid
  | Br bid
  | CondBr vid bid bid
  | OtherTerm nat "bid list"

record basic_block =
  parent :: fid
  insts :: "instr list"

type_synonym blockstore = "bid \<Rightarrow> basic_block"

text \<open>
  \<^verbatim>\<open>llvm::Loop\<close> as the pass reads it: \<^verbatim>\<open>getHeader()\<close> (a pointer, \<open>None\<close> is
  \<^verbatim>\<open>NULL\<close>), the block list iterated by \<^verbatim>\<open>block_begin()/block_end()\<close>, and
  \<^verbatim>\<open>getSubLoops()\<close>.
\<close>

datatype loop = Loop (getHeader: "bid option") (getBlocks: "bid list") (getSubLoops: "loop list")

fun isPHI :: "instr \<Rightarrow> bool" where
  "isPHI (PHI v) = True"
| "isPHI i = False"

fun isBarrier :: "instr \<Rightarrow> bool" where
  "isBarrier Barrier = True"
| "isBarrier i = False"

fun isTerminator :: "instr \<Rightarrow> bool" where
  "isTerminator (Br t) = True"
| "isTerminator (CondBr c t e) = True"
| "isTerminator (OtherTerm k ts) = True"
| "isTerminator i = False"

fun successors :: "instr \<Rightarrow> bid list" where
  "successors (Br t) = [t]"
| "successors (CondBr c t e) = [t, e]"
| "successors (OtherTerm k ts) = ts"
| "successors i = []"

text \<open>\<^verbatim>\<open>BasicBlock::getTerminator()\<close>: the last instruction when it is a terminator,
  \<^verbatim>\<open>NULL\<close> otherwise.\<close>

definition getTerminator :: "instr list \<Rightarrow> instr option" where
  "getTerminator is =
     (if is = [] then None
      else if isTerminator (last is) then Some (last is) else None)"

text \<open>\<^verbatim>\<open>BasicBlock::getFirstNonPHI()\<close>, as the position of the instruction it returns;
  on a block of phi nodes only the iterator runs off the end of the block.\<close>

definition getFirstNonPHI :: "instr list \<Rightarrow> nat option" where
  "getFirstNonPHI is =
     (if list_all isPHI is then None else Some (length (takeWhile isPHI is)))"

definition succ_blocks :: "basic_block \<Rightarrow> bid list" where
  "succ_blocks b = (case getTerminator (insts b) of None \<Rightarrow> [] | Some t \<Rightarrow> successors t)"

text \<open>\<^verbatim>\<open>LoopBase::getExitingBlocks\<close>: the blocks of the loop with a successor that
  the loop does not contain, in block order; \<^verbatim>\<open>getExitingBlock()\<close> is the only one of
  them, or \<^verbatim>\<open>NULL\<close>.\<close>

definition getExitingBlocks :: "blockstore \<Rightarrow> loop \<Rightarrow> bid list" where
  "getExitingBlocks m L =
     filter (\<lambda>b. list_ex (\<lambda>t. t \<notin> set (getBlocks L)) (succ_blocks (m b))) (getBlocks L)"

definition getExitingBlock :: "blockstore \<Rightarrow> loop \<Rightarrow> bid option" where
  "getExitingBlock m L = (case getExitingBlocks m L of [e] \<Rightarrow> Some e | _ \<Rightarrow> None)"

section \<open>The collaborators and the state\<close>

text \<open>
  The pass consults \<^verbatim>\<open>Workgroup::isKernelToProcess\<close> and the two overloads of
  \<^verbatim>\<open>VariableUniformityAnalysis::isUniform\<close>; their answers are parameters.
\<close>

record env =
  isKernelToProcess :: "fid \<Rightarrow> bool"
  isUniformBlock :: "fid \<Rightarrow> bid \<Rightarrow> bool"
  isUniformValue :: "fid \<Rightarrow> vid \<Rightarrow> bool"

text \<open>
  Every decision of the pass is recorded, with the answer it got, in the order taken:
  \<^item> \<open>KernelCheck\<close>: the query \<^verbatim>\<open>isKernelToProcess\<close> of line 76, on the function
    that the header block belongs to;
  \<^item> \<open>BarrierScan\<close>: the scan of one block for barriers, lines 96-102, and what it found;
  \<^item> \<open>SubLoopCheck\<close>: the number of sub-loops tested at line 130;
  \<^item> \<open>ExitingBlockCheck\<close>: the exiting block tested at lines 138-139;
  \<^item> \<open>HeaderCheck\<close>: the header tested at lines 141-142;
  \<^item> \<open>UniformBlockQuery\<close>: \<^verbatim>\<open>VUA.isUniform(f, loopEntry)\<close>, line 151;
  \<^item> \<open>UniformValueQuery\<close>: \<^verbatim>\<open>VUA.isUniform(f, br->getCondition())\<close>, line 164;
  \<^item> \<open>BarrierCreate\<close>: a call of \<^verbatim>\<open>Barrier::Create\<close>, lines 168 and 169, with the
    block and the position the marker went to.
\<close>

datatype event =
    KernelCheck fid bool
  | BarrierScan bid bool
  | SubLoopCheck nat
  | ExitingBlockCheck "bid option"
  | HeaderCheck "bid option"
  | UniformBlockQuery fid bid bool
  | UniformValueQuery fid vid bool
  | BarrierCreate bid nat

record state =
  ir :: blockstore
  log :: "event list"

text \<open>
  What the source leaves undefined stops the run: the dereference of a \<^verbatim>\<open>NULL\<close> pointer
  (the header at line 76, the terminator handed to \<^verbatim>\<open>dyn_cast\<close> at line 162) and the
  dereference of the end of a block by \<^verbatim>\<open>getFirstNonPHI\<close>.
\<close>

datatype fault = NullDeref | PastTheEnd

definition emit :: "event \<Rightarrow> state \<Rightarrow> state" where
  "emit e s = s\<lparr>log := log s @ [e]\<rparr>"

text \<open>
  Modelled from the spec: \<^verbatim>\<open>Barrier::Create\<close> is declared in \<^verbatim>\<open>Barrier.h\<close>, which
  is not among the sources. The spec has it insert a zero-operand synchronization
  instruction immediately at the given instruction position; the position is the block and
  the index of the instruction the marker is put in front of.
\<close>

definition Barrier_Create :: "bid \<Rightarrow> nat \<Rightarrow> state \<Rightarrow> state" where
  "Barrier_Create b i s =
     emit (BarrierCreate b i)
       (s\<lparr>ir := (ir s)(b := (ir s b)\<lparr>insts :=
              take i (insts (ir s b)) @ Barrier # drop i (insts (ir s b))\<rparr>)\<rparr>)"

section \<open>The pass\<close>

text \<open>The inner loop of \<^verbatim>\<open>ProcessLoop\<close> (lines 96-102): does the block hold a barrier?\<close>

fun scanBlock :: "instr list \<Rightarrow> bool" where
  "scanBlock [] = False"
| "scanBlock (j # js) = (if isBarrier j then True else scanBlock js)"

text \<open>The outer loop (lines 94-103): it stops at the first block with a barrier.\<close>

fun scanLoop :: "bid list \<Rightarrow> state \<Rightarrow> bool \<times> state" where
  "scanLoop [] s = (False, s)"
| "scanLoop (i # bs) s =
     (let found = scanBlock (insts (ir s i));
          s1 = emit (BarrierScan i found) s
      in if found then (True, s1) else scanLoop bs s1)"

text \<open>
  \<^verbatim>\<open>AddInnerLoopBarrier\<close> (lines 125-190). \<^verbatim>\<open>dyn_cast\<close> of a \<^verbatim>\<open>NULL\<close> terminator
  and \<^verbatim>\<open>getFirstNonPHI\<close> running off a block are stop the run. Lines 168-169 are \<open>createBarriers\<close>: the
  position of the second marker is read after the first marker has been inserted, as in
  the source.
\<close>

definition createBarriers :: "bid \<Rightarrow> bid \<Rightarrow> state \<Rightarrow> fault + (bool \<times> state)" where
  "createBarriers e h s =
     (let s6 = Barrier_Create e (length (insts (ir s e)) - 1) s
      in case getFirstNonPHI (insts (ir s6 h)) of
           None \<Rightarrow> Inl PastTheEnd
         | Some i \<Rightarrow> Inr (True, Barrier_Create h i s6))"

definition AddInnerLoopBarrier :: "env \<Rightarrow> loop \<Rightarrow> state \<Rightarrow> fault + (bool \<times> state)" where
  "AddInnerLoopBarrier env L s =
     (let s1 = emit (SubLoopCheck (length (getSubLoops L))) s in
      if length (getSubLoops L) > 0 then Inr (False, s1)
      else
        let brexit = getExitingBlock (ir s1) L;
            s2 = emit (ExitingBlockCheck brexit) s1
        in (case brexit of
              None \<Rightarrow> Inr (False, s2)
            | Some e \<Rightarrow>
               (let loopEntry = getHeader L;
                    s3 = emit (HeaderCheck loopEntry) s2
                in (case loopEntry of
                      None \<Rightarrow> Inr (False, s3)
                    | Some h \<Rightarrow>
                       (let f = parent (ir s3 e);
                            u = isUniformBlock env f h;
                            s4 = emit (UniformBlockQuery f h u) s3
                        in if \<not> u then Inr (False, s4)
                           else
                             (case getTerminator (insts (ir s4 e)) of
                                None \<Rightarrow> Inl NullDeref
                              | Some br \<Rightarrow>
                                 (case br of
                                    CondBr c t1 t2 \<Rightarrow>
                                     (let uc = isUniformValue env f c;
                                          s5 = emit (UniformValueQuery f c uc) s4
                                      in if uc then createBarriers e h s5
                                         else Inr (False, s5))
                                  | _ \<Rightarrow> Inr (False, s4))))))))"

text \<open>\<^verbatim>\<open>ProcessLoop\<close> (lines 89-107).\<close>

definition ProcessLoop :: "env \<Rightarrow> loop \<Rightarrow> state \<Rightarrow> fault + (bool \<times> state)" where
  "ProcessLoop env L s =
     (case scanLoop (getBlocks L) s of
        (isBLoop, s1) \<Rightarrow> if isBLoop then Inr (False, s1) else AddInnerLoopBarrier env L s1)"

text \<open>\<^verbatim>\<open>runOnLoop\<close> (lines 73-80): the function is reached through the header, which
  is dereferenced unchecked.\<close>

definition runOnLoop :: "env \<Rightarrow> loop \<Rightarrow> state \<Rightarrow> fault + (bool \<times> state)" where
  "runOnLoop env L s =
     (case getHeader L of
        None \<Rightarrow> Inl NullDeref
      | Some h \<Rightarrow>
          let f = parent (ir s h);
              k = isKernelToProcess env f;
              s1 = emit (KernelCheck f k) s
          in if \<not> k then Inr (False, s1) else ProcessLoop env L s1)"

section \<open>Auxiliary notions\<close>

text \<open>The events the barrier scan records on a block list, as a function of the store.\<close>

fun scan_events :: "blockstore \<Rightarrow> bid list \<Rightarrow> event list" where
  "scan_events m [] = []"
| "scan_events m (i # bs) =
     (if scanBlock (insts (m i)) then [BarrierScan i True]
      else BarrierScan i False # scan_events m bs)"

text \<open>
  What the IR verifier guarantees of a block, as far as the pass relies on it: the block
  ends in a terminator and its phi nodes are grouped at the top.
\<close>

definition wf_block :: "instr list \<Rightarrow> bool" where
  "wf_block is \<longleftrightarrow>
     is \<noteq> [] \<and> isTerminator (last is) \<and> list_all (\<lambda>i. \<not> isPHI i) (dropWhile isPHI is)"

text \<open>The events of a run that passes every check, up to the creation of the markers.\<close>

definition pass_events :: "blockstore \<Rightarrow> loop \<Rightarrow> bid \<Rightarrow> bid \<Rightarrow> vid \<Rightarrow> event list" where
  "pass_events m L h e c =
     KernelCheck (parent (m h)) True # scan_events m (getBlocks L) @
     [SubLoopCheck 0, ExitingBlockCheck (Some e), HeaderCheck (Some h),
      UniformBlockQuery (parent (m e)) h True, UniformValueQuery (parent (m e)) c True]"

text \<open>The events that record the creation of a marker.\<close>

fun isCreate :: "event \<Rightarrow> bool" where
  "isCreate (BarrierCreate b i) = True"
| "isCreate ev = False"

text \<open>The number of barriers in the blocks \<open>bs\<close> of a store.\<close>

definition barrier_count :: "blockstore \<Rightarrow> bid list \<Rightarrow> nat" where
  "barrier_count m bs = sum_list (map (\<lambda>b. length (filter isBarrier (insts (m b)))) bs)"

section \<open>Example programs\<close>

text \<open>
  A kernel with a two-block loop: block 0 is the preheader, block 1 the header, block 2
  the latch with the loop's exit test, block 3 the exit. All four belong to function 7.
\<close>

definition ex_ir :: blockstore where
  "ex_ir = (\<lambda>_. \<lparr>parent = 0, insts = [OtherTerm 0 []]\<rparr>)
          (0 := \<lparr>parent = 7, insts = [Other 9, Br 1]\<rparr>,
           1 := \<lparr>parent = 7, insts = [PHI 10, Other 11, Br 2]\<rparr>,
           2 := \<lparr>parent = 7, insts = [Other 12, CondBr 13 1 3]\<rparr>,
           3 := \<lparr>parent = 7, insts = [OtherTerm 0 []]\<rparr>)"

definition ex_loop :: loop where
  "ex_loop = Loop (Some 1) [1, 2] []"

text \<open>Function 7 is a kernel to process, every block is uniform, value 13 is uniform.\<close>

definition ex_env :: env where
  "ex_env = \<lparr>isKernelToProcess = (\<lambda>f. f = 7), isUniformBlock = (\<lambda>f b. True),
             isUniformValue = (\<lambda>f v. v = 13)\<rparr>"

text \<open>The same answers, but no function is a kernel to process.\<close>

definition ex_env_nokernel :: env where
  "ex_env_nokernel = ex_env\<lparr>isKernelToProcess := (\<lambda>f. False)\<rparr>"

text \<open>A kernel whose loop is the single block 1: header and exiting block coincide.\<close>

definition ex_ir1 :: blockstore where
  "ex_ir1 = ex_ir(1 := \<lparr>parent = 7, insts = [PHI 10, Other 11, CondBr 13 1 3]\<rparr>)"

definition ex_loop1 :: loop where
  "ex_loop1 = Loop (Some 1) [1] []"

text \<open>The two-block loop with an unconditional branch out of the latch.\<close>

definition ex_ir_br :: blockstore where
  "ex_ir_br = ex_ir(2 := \<lparr>parent = 7, insts = [Other 12, Br 3]\<rparr>)"

text \<open>The two-block loop with a second exit, out of the header.\<close>

definition ex_ir_two_exits :: blockstore where
  "ex_ir_two_exits = ex_ir(1 := \<lparr>parent = 7, insts = [PHI 10, CondBr 11 2 3]\<rparr>)"

text \<open>The two-block loop whose latch only branches back to the header: no exit.\<close>

definition ex_ir_no_exit :: blockstore where
  "ex_ir_no_exit = ex_ir(2 := \<lparr>parent = 7, insts = [Other 12, Br 1]\<rparr>)"

section \<open>Basic facts\<close>

lemma scanBlock_iff: "scanBlock js \<longleftrightarrow> Barrier \<in> set js"
proof (induction js)
  case Nil show ?case by simp
next
  case (Cons j js) then show ?case by (cases j) auto
qed

lemma scanLoop_eq:
  "scanLoop bs s = (list_ex (\<lambda>b. scanBlock (insts (ir s b))) bs, s\<lparr>log := log s @ scan_events (ir s) bs\<rparr>)"
proof (induction bs arbitrary: s)
  case Nil show ?case by simp
next
  case (Cons i bs) show ?case
    by (simp add: Cons.IH emit_def Let_def)
qed

lemma scan_events_only: "ev \<in> set (scan_events m bs) \<Longrightarrow> \<exists>b r. ev = BarrierScan b r"
  by (induction bs) (auto split: if_splits)

lemma found_iff: "list_ex (\<lambda>b. scanBlock (insts (m b))) bs \<longleftrightarrow> (\<exists>x\<in>set bs. Barrier \<in> set (insts (m x)))"
  by (simp add: list_ex_iff scanBlock_iff)

lemma getExitingBlock_Some: "getExitingBlock m L = Some e \<longleftrightarrow> getExitingBlocks m L = [e]"
  by (auto simp: getExitingBlock_def split: list.splits)

lemma getExitingBlock_None: "getExitingBlock m L = None \<longleftrightarrow> length (getExitingBlocks m L) \<noteq> 1"
  by (auto simp: getExitingBlock_def split: list.splits)

lemma exiting_in_loop:
  assumes "getExitingBlocks m L = [e]"
  shows "e \<in> set (getBlocks L)"
proof -
  have "e \<in> set (getExitingBlocks m L)" using assms by simp
  then show ?thesis unfolding getExitingBlocks_def by simp
qed

lemma exiting_has_terminator:
  assumes "getExitingBlocks m L = [e]"
  shows "\<exists>t. getTerminator (insts (m e)) = Some t \<and> t = last (insts (m e)) \<and> insts (m e) \<noteq> [] \<and> isTerminator t"
proof -
  have "e \<in> set (getExitingBlocks m L)" using assms by simp
  then have "succ_blocks (m e) \<noteq> []" unfolding getExitingBlocks_def by (auto simp: list_ex_iff)
  then show ?thesis
    by (auto simp: succ_blocks_def getTerminator_def split: option.splits if_splits)
qed

lemma wf_block_nonphi: "wf_block is \<Longrightarrow> \<not> list_all isPHI is"
proof
  assume w: "wf_block is" and a: "list_all isPHI is"
  from w have "is \<noteq> []" "isTerminator (last is)" by (simp_all add: wf_block_def)
  moreover from a \<open>is \<noteq> []\<close> have "isPHI (last is)" by (simp add: list_all_iff)
  ultimately show False by (cases "last is") auto
qed

lemma insert_before_last:
  assumes "xs \<noteq> []"
  shows "take (length xs - Suc 0) xs @ Barrier # drop (length xs - Suc 0) xs = butlast xs @ [Barrier, last xs]"
  using assms by (cases xs rule: rev_cases) simp_all

lemma takeWhile_stop: "\<not> P z \<Longrightarrow> takeWhile P (ys @ z # zs) = takeWhile P ys"
  by (induction ys) auto

lemma dropWhile_stop: "\<not> P z \<Longrightarrow> dropWhile P (ys @ z # zs) = dropWhile P ys @ z # zs"
  by (induction ys) auto

lemma takeWhile_butlast:
  assumes "xs \<noteq> []" and "\<not> P (last xs)"
  shows "takeWhile P (butlast xs) = takeWhile P xs"
proof -
  have "takeWhile P (butlast xs @ last xs # []) = takeWhile P (butlast xs)"
    using assms(2) by (rule takeWhile_stop)
  with assms(1) show ?thesis by simp
qed

lemma insert_at_first_nonphi:
  "take (length (takeWhile isPHI xs)) xs @ Barrier # drop (length (takeWhile isPHI xs)) xs
     = takeWhile isPHI xs @ Barrier # dropWhile isPHI xs"
  by (metis takeWhile_eq_take dropWhile_eq_drop)

lemma createBarriers_diff:
  assumes "e \<noteq> h" and "insts (ir s e) \<noteq> []" and "\<not> list_all isPHI (insts (ir s h))"
  shows "createBarriers e h s = Inr (True,
      s\<lparr>ir := (ir s)
           (e := (ir s e)\<lparr>insts := butlast (insts (ir s e)) @ [Barrier, last (insts (ir s e))]\<rparr>,
            h := (ir s h)\<lparr>insts := takeWhile isPHI (insts (ir s h)) @ Barrier # dropWhile isPHI (insts (ir s h))\<rparr>),
        log := log s @ [BarrierCreate e (length (insts (ir s e)) - 1),
                        BarrierCreate h (length (takeWhile isPHI (insts (ir s h))))]\<rparr>)"
  using assms
  by (simp add: createBarriers_def Barrier_Create_def emit_def Let_def getFirstNonPHI_def
      insert_before_last insert_at_first_nonphi)

lemma createBarriers_diff_fault:
  assumes "e \<noteq> h" and "list_all isPHI (insts (ir s h))"
  shows "createBarriers e h s = Inl PastTheEnd"
  using assms
  by (simp add: createBarriers_def Barrier_Create_def emit_def Let_def getFirstNonPHI_def)

lemma createBarriers_same:
  assumes "insts (ir s e) \<noteq> []" and "\<not> isPHI (last (insts (ir s e)))"
  shows "createBarriers e e s = Inr (True,
      s\<lparr>ir := (ir s)
           (e := (ir s e)\<lparr>insts := takeWhile isPHI (insts (ir s e)) @ Barrier #
                     dropWhile isPHI (butlast (insts (ir s e))) @ [Barrier, last (insts (ir s e))]\<rparr>),
        log := log s @ [BarrierCreate e (length (insts (ir s e)) - 1),
                        BarrierCreate e (length (takeWhile isPHI (insts (ir s e))))]\<rparr>)"
proof -
  let ?E = "insts (ir s e)"
  let ?E1 = "butlast ?E @ [Barrier, last ?E]"
  have np: "\<not> list_all isPHI ?E1" by simp
  have tw: "takeWhile isPHI ?E1 = takeWhile isPHI ?E"
    using takeWhile_stop[of isPHI Barrier "butlast ?E" "[last ?E]"]
      takeWhile_butlast[of ?E isPHI, OF assms]
    by simp
  have dw: "dropWhile isPHI ?E1 = dropWhile isPHI (butlast ?E) @ [Barrier, last ?E]"
    using dropWhile_stop[of isPHI Barrier "butlast ?E" "[last ?E]"] by simp
  have ins: "take (length (takeWhile isPHI ?E1)) ?E1 @ Barrier # drop (length (takeWhile isPHI ?E1)) ?E1
      = takeWhile isPHI ?E @ Barrier # dropWhile isPHI (butlast ?E) @ [Barrier, last ?E]"
  proof -
    have "take (length (takeWhile isPHI ?E1)) ?E1 @ Barrier # drop (length (takeWhile isPHI ?E1)) ?E1
        = takeWhile isPHI ?E1 @ Barrier # dropWhile isPHI ?E1"
      by (rule insert_at_first_nonphi)
    then show ?thesis by (simp only: tw dw)
  qed
  show ?thesis
    using assms(1) np ins
    by (simp add: createBarriers_def Barrier_Create_def emit_def Let_def getFirstNonPHI_def
      insert_before_last tw del: list_all_append)
qed

lemma runOnLoop_eligible:
  assumes "getHeader L = Some h"
    and "isKernelToProcess env (parent (ir s h))"
    and "\<forall>x\<in>set (getBlocks L). Barrier \<notin> set (insts (ir s x))"
    and "getSubLoops L = []"
    and "getExitingBlocks (ir s) L = [e]"
    and "isUniformBlock env (parent (ir s e)) h"
    and "getTerminator (insts (ir s e)) = Some (CondBr c t1 t2)"
    and "isUniformValue env (parent (ir s e)) c"
  shows "runOnLoop env L s = createBarriers e h (s\<lparr>log := log s @ pass_events (ir s) L h e c\<rparr>)"
  using assms
  by (simp add: runOnLoop_def ProcessLoop_def AddInnerLoopBarrier_def scanLoop_eq found_iff
      emit_def Let_def getExitingBlock_def pass_events_def)

lemma runOnLoop_True_elim:
  assumes "runOnLoop env L s = Inr (True, s')"
  shows "\<exists>h e c t1 t2. getHeader L = Some h
     \<and> isKernelToProcess env (parent (ir s h))
     \<and> (\<forall>x\<in>set (getBlocks L). Barrier \<notin> set (insts (ir s x)))
     \<and> getSubLoops L = []
     \<and> getExitingBlocks (ir s) L = [e]
     \<and> isUniformBlock env (parent (ir s e)) h
     \<and> getTerminator (insts (ir s e)) = Some (CondBr c t1 t2)
     \<and> isUniformValue env (parent (ir s e)) c
     \<and> createBarriers e h (s\<lparr>log := log s @ pass_events (ir s) L h e c\<rparr>) = Inr (True, s')"
proof (cases "getExitingBlock (ir s) L")
  case None
  with assms show ?thesis
    by (auto simp: runOnLoop_def ProcessLoop_def AddInnerLoopBarrier_def scanLoop_eq
        emit_def Let_def split: option.splits if_splits)
next
  case (Some e)
  then have ex: "getExitingBlocks (ir s) L = [e]" by (simp add: getExitingBlock_Some)
  from assms Some show ?thesis
    by (auto simp: runOnLoop_def ProcessLoop_def AddInnerLoopBarrier_def scanLoop_eq found_iff
        emit_def Let_def ex pass_events_def
        split: option.splits if_splits instr.splits)
qed

lemma runOnLoop_False_frame:
  assumes "runOnLoop env L s = Inr (False, s')"
  shows "ir s' = ir s \<and> (\<exists>evs. log s' = log s @ evs \<and> (\<forall>b i. BarrierCreate b i \<notin> set evs))"
  using assms
  by (auto simp: runOnLoop_def ProcessLoop_def AddInnerLoopBarrier_def scanLoop_eq found_iff
      emit_def Let_def createBarriers_def
      split: option.splits if_splits instr.splits dest: scan_events_only)

lemma runOnLoop_returns:
  assumes "getHeader L = Some h" and "\<not> list_all isPHI (insts (ir s h))"
  shows "\<exists>b s'. runOnLoop env L s = Inr (b, s')"
proof (cases "getExitingBlock (ir s) L")
  case None
  with assms(1) show ?thesis
    by (auto simp: runOnLoop_def ProcessLoop_def AddInnerLoopBarrier_def scanLoop_eq
        emit_def Let_def)
next
  case (Some e)
  then have ex: "getExitingBlocks (ir s) L = [e]" by (simp add: getExitingBlock_Some)
  from exiting_has_terminator[OF ex] obtain t where
    t: "getTerminator (insts (ir s e)) = Some t" "t = last (insts (ir s e))" "insts (ir s e) \<noteq> []"
       "isTerminator t" by blast
  have cb: "\<exists>b s'. createBarriers e h (s\<lparr>log := l\<rparr>) = Inr (b, s')" if "\<not> isPHI t" for l
  proof (cases "e = h")
    case True
    from createBarriers_same[of "s\<lparr>log := l\<rparr>" e] t that
    have "\<exists>s'. createBarriers e e (s\<lparr>log := l\<rparr>) = Inr (True, s')" by simp
    with True show ?thesis by blast
  next
    case False
    with createBarriers_diff[of e h "s\<lparr>log := l\<rparr>"] t assms(2)
    have "\<exists>s'. createBarriers e h (s\<lparr>log := l\<rparr>) = Inr (True, s')" by simp
    then show ?thesis by blast
  qed
  show ?thesis
  proof (cases t)
    case (CondBr c t1 t2)
    with assms(1) Some t(1) cb show ?thesis
      by (auto simp: runOnLoop_def ProcessLoop_def AddInnerLoopBarrier_def scanLoop_eq
          emit_def Let_def)
  qed (use assms(1) Some t(1) in \<open>auto simp: runOnLoop_def ProcessLoop_def
          AddInnerLoopBarrier_def scanLoop_eq emit_def Let_def\<close>)
qed

section \<open>Properties of the pass\<close>

text \<open>
  C5. When the function that holds the loop is not a kernel to process, \<open>runOnLoop\<close>
  returns false right after the kernel query: the store is untouched and the only event
  is that query, so no barrier scan, no sub-loop count, no exiting-block or header check
  and no uniformity query was made. (The header pointer itself is read, to reach the
  function.) The result is the same for every other loop of that function and for every
  other answer of the uniformity analysis.
\<close>

theorem not_kernel_returns_false:
  assumes "getHeader L = Some h" and "\<not> isKernelToProcess env (parent (ir s h))"
  shows "runOnLoop env L s = Inr (False, s\<lparr>log := log s @ [KernelCheck (parent (ir s h)) False]\<rparr>)
     \<and> (\<forall>env' L' h'. getHeader L' = Some h' \<and> parent (ir s h') = parent (ir s h)
            \<and> isKernelToProcess env' = isKernelToProcess env
          \<longrightarrow> runOnLoop env' L' s = runOnLoop env L s)"
  using assms by (simp add: runOnLoop_def emit_def Let_def)

theorem not_kernel_returns_false_witness:
  "runOnLoop ex_env_nokernel ex_loop \<lparr>ir = ex_ir, log = []\<rparr>
      = Inr (False, \<lparr>ir = ex_ir, log = [KernelCheck 7 False]\<rparr>)
   \<and> runOnLoop (ex_env_nokernel\<lparr>isUniformBlock := (\<lambda>f b. False)\<rparr>) (Loop (Some 2) [] [ex_loop])
        \<lparr>ir = ex_ir, log = []\<rparr>
      = runOnLoop ex_env_nokernel ex_loop \<lparr>ir = ex_ir, log = []\<rparr>"
proof -
  let ?s = "\<lparr>ir = ex_ir, log = []\<rparr>"
  have h: "getHeader ex_loop = Some 1" by (simp add: ex_loop_def)
  have k: "\<not> isKernelToProcess ex_env_nokernel (parent (ir ?s 1))"
    by (simp add: ex_env_nokernel_def)
  note main = not_kernel_returns_false[OF h k]
  from main have a: "runOnLoop ex_env_nokernel ex_loop ?s
      = Inr (False, \<lparr>ir = ex_ir, log = [KernelCheck 7 False]\<rparr>)"
    by (simp add: ex_ir_def)
  from main have "getHeader (Loop (Some 2) [] [ex_loop]) = Some 2 \<and> parent (ir ?s 2) = parent (ir ?s 1)
      \<and> isKernelToProcess (ex_env_nokernel\<lparr>isUniformBlock := (\<lambda>f b. False)\<rparr>) = isKernelToProcess ex_env_nokernel
     \<longrightarrow> runOnLoop (ex_env_nokernel\<lparr>isUniformBlock := (\<lambda>f b. False)\<rparr>) (Loop (Some 2) [] [ex_loop]) ?s
      = runOnLoop ex_env_nokernel ex_loop ?s"
    by blast
  then have b: "runOnLoop (ex_env_nokernel\<lparr>isUniformBlock := (\<lambda>f b. False)\<rparr>) (Loop (Some 2) [] [ex_loop]) ?s
      = runOnLoop ex_env_nokernel ex_loop ?s"
    by (simp add: ex_ir_def)
  from a b show ?thesis by simp
qed

lemma createBarriers_changes:
  assumes "createBarriers e h s = Inr (b, s')"
  shows "b \<and> length (insts (ir s' h)) > length (insts (ir s h)) \<and> ir s' \<noteq> ir s"
proof -
  from assms obtain i where
    s': "s' = Barrier_Create h i (Barrier_Create e (length (insts (ir s e)) - 1) s)" and b: "b"
    by (auto simp: createBarriers_def Let_def split: option.splits)
  have len: "length (insts (ir s' h)) > length (insts (ir s h))"
    unfolding s' by (auto simp: Barrier_Create_def emit_def min_def)
  then have "ir s' h \<noteq> ir s h" by auto
  then have "ir s' \<noteq> ir s" by auto
  with b len show ?thesis by simp
qed

lemma condbr_terminator:
  assumes "getTerminator is = Some (CondBr c t1 t2)"
  shows "is \<noteq> [] \<and> last is = CondBr c t1 t2 \<and> \<not> isPHI (last is)"
  using assms by (auto simp: getTerminator_def split: if_splits)

text \<open>
  C1. On a loop whose header block is well formed, \<open>runOnLoop\<close> returns true, and then
  has changed the store, exactly when the loop has a header whose function is a kernel to
  process, no block of the loop holds a barrier, the loop has no sub-loops, it has exactly
  one exiting block, the header block is uniform, the exiting block ends in a conditional
  branch and the condition of that branch is uniform. In every other case of a loop with a
  header it returns false and leaves the store as it was. (A loop without a header cannot
  be passed: line 76 dereferences the header.)
\<close>

theorem runOnLoop_true_iff:
  assumes "getHeader L = Some h" and "wf_block (insts (ir s h))"
  shows "\<exists>b s'. runOnLoop env L s = Inr (b, s') \<and> (b \<longleftrightarrow> ir s' \<noteq> ir s) \<and>
      (b \<longleftrightarrow> isKernelToProcess env (parent (ir s h))
             \<and> (\<forall>x\<in>set (getBlocks L). Barrier \<notin> set (insts (ir s x)))
             \<and> getSubLoops L = []
             \<and> (\<exists>e c t1 t2. getExitingBlocks (ir s) L = [e]
                   \<and> isUniformBlock env (parent (ir s e)) h
                   \<and> getTerminator (insts (ir s e)) = Some (CondBr c t1 t2)
                   \<and> isUniformValue env (parent (ir s e)) c))"
proof -
  let ?conds = "isKernelToProcess env (parent (ir s h))
             \<and> (\<forall>x\<in>set (getBlocks L). Barrier \<notin> set (insts (ir s x)))
             \<and> getSubLoops L = []
             \<and> (\<exists>e c t1 t2. getExitingBlocks (ir s) L = [e]
                   \<and> isUniformBlock env (parent (ir s e)) h
                   \<and> getTerminator (insts (ir s e)) = Some (CondBr c t1 t2)
                   \<and> isUniformValue env (parent (ir s e)) c)"
  from assms(2) have np: "\<not> list_all isPHI (insts (ir s h))" by (rule wf_block_nonphi)
  from runOnLoop_returns[OF assms(1) np] obtain b s' where
    r: "runOnLoop env L s = Inr (b, s')" by blast
  show ?thesis
  proof (cases b)
    case True
    from runOnLoop_True_elim[of env L s s'] r True assms(1) obtain e c t1 t2 where
      c: "isKernelToProcess env (parent (ir s h))"
         "\<forall>x\<in>set (getBlocks L). Barrier \<notin> set (insts (ir s x))"
         "getSubLoops L = []"
         "getExitingBlocks (ir s) L = [e]"
         "isUniformBlock env (parent (ir s e)) h"
         "getTerminator (insts (ir s e)) = Some (CondBr c t1 t2)"
         "isUniformValue env (parent (ir s e)) c"
      and cb: "createBarriers e h (s\<lparr>log := log s @ pass_events (ir s) L h e c\<rparr>) = Inr (True, s')"
      by auto
    from c have ?conds by blast
    moreover from createBarriers_changes[OF cb] have "ir s' \<noteq> ir s" by simp
    ultimately show ?thesis using r True by blast
  next
    case False
    with r have r': "runOnLoop env L s = Inr (False, s')" by simp
    have "\<not> ?conds"
    proof
      assume ?conds
      then obtain e c t1 t2 where c: "isKernelToProcess env (parent (ir s h))"
         "\<forall>x\<in>set (getBlocks L). Barrier \<notin> set (insts (ir s x))"
         "getSubLoops L = []"
         "getExitingBlocks (ir s) L = [e]"
         "isUniformBlock env (parent (ir s e)) h"
         "getTerminator (insts (ir s e)) = Some (CondBr c t1 t2)"
         "isUniformValue env (parent (ir s e)) c"
        by blast
      have "runOnLoop env L s = createBarriers e h (s\<lparr>log := log s @ pass_events (ir s) L h e c\<rparr>)"
        by (rule runOnLoop_eligible[OF assms(1) c])
      with r' createBarriers_changes show False by metis
    qed
    moreover from runOnLoop_False_frame[OF r'] have "ir s' = ir s" by simp
    ultimately show ?thesis using r' by blast
  qed
qed

lemma ex_exiting: "getExitingBlocks ex_ir ex_loop = [2]"
  by (simp add: getExitingBlocks_def succ_blocks_def getTerminator_def ex_ir_def ex_loop_def)

lemma ex_wf_header: "wf_block (insts (ex_ir 1))"
  by (simp add: wf_block_def ex_ir_def)

theorem runOnLoop_true_iff_witness:
  "getHeader ex_loop = Some 1 \<and> wf_block (insts (ex_ir 1))
   \<and> (\<exists>s'. runOnLoop ex_env ex_loop \<lparr>ir = ex_ir, log = []\<rparr> = Inr (True, s') \<and> ir s' \<noteq> ex_ir)
   \<and> (\<exists>s'. runOnLoop (ex_env\<lparr>isUniformValue := (\<lambda>f v. False)\<rparr>) ex_loop \<lparr>ir = ex_ir, log = []\<rparr>
            = Inr (False, s') \<and> ir s' = ex_ir)"
proof -
  let ?s = "\<lparr>ir = ex_ir, log = []\<rparr>"
  have h: "getHeader ex_loop = Some 1" by (simp add: ex_loop_def)
  have w: "wf_block (insts (ir ?s 1))" using ex_wf_header by simp
  have t: "getTerminator (insts (ex_ir 2)) = Some (CondBr 13 1 3)"
    by (simp add: getTerminator_def ex_ir_def)
  have nb: "\<forall>x\<in>set (getBlocks ex_loop). Barrier \<notin> set (insts (ex_ir x))"
    by (simp add: ex_ir_def ex_loop_def)
  have p: "parent (ex_ir 1) = 7" "parent (ex_ir 2) = 7" by (simp_all add: ex_ir_def)
  have sl: "getSubLoops ex_loop = []" by (simp add: ex_loop_def)
  from runOnLoop_true_iff[OF h w, of ex_env]
  have a: "\<exists>s'. runOnLoop ex_env ex_loop ?s = Inr (True, s') \<and> ir s' \<noteq> ex_ir"
    using t nb p sl by (auto simp: ex_exiting ex_env_def)
  from runOnLoop_true_iff[OF h w, of "ex_env\<lparr>isUniformValue := (\<lambda>f v. False)\<rparr>"]
  have b: "\<exists>s'. runOnLoop (ex_env\<lparr>isUniformValue := (\<lambda>f v. False)\<rparr>) ex_loop ?s
            = Inr (False, s') \<and> ir s' = ex_ir"
    by auto
  from h ex_wf_header a b show ?thesis by blast
qed

lemma scan_events_no_create: "filter isCreate (scan_events m bs) = []"
  by (induction bs) auto

lemma pass_events_no_create: "filter isCreate (pass_events m L h e c) = []"
  by (simp add: pass_events_def scan_events_no_create)

lemma createBarriers_effect:
  assumes "createBarriers e h s = Inr (b, s')"
    and "insts (ir s e) \<noteq> []" and "\<not> isPHI (last (insts (ir s e)))"
  shows "b \<and> (\<forall>x. x \<noteq> h \<and> x \<noteq> e \<longrightarrow> ir s' x = ir s x)
     \<and> (\<forall>x. parent (ir s' x) = parent (ir s x))
     \<and> (e \<noteq> h \<longrightarrow>
           insts (ir s' e) = butlast (insts (ir s e)) @ [Barrier, last (insts (ir s e))]
         \<and> insts (ir s' h) = takeWhile isPHI (insts (ir s h)) @ Barrier # dropWhile isPHI (insts (ir s h)))
     \<and> (e = h \<longrightarrow>
           insts (ir s' h) = takeWhile isPHI (insts (ir s h)) @ Barrier #
              dropWhile isPHI (butlast (insts (ir s h))) @ [Barrier, last (insts (ir s h))])
     \<and> log s' = log s @ [BarrierCreate e (length (insts (ir s e)) - 1),
                          BarrierCreate h (length (takeWhile isPHI (insts (ir s h))))]"
proof (cases "e = h")
  case True
  with assms createBarriers_same[of s e] show ?thesis by auto
next
  case False
  show ?thesis
  proof (cases "list_all isPHI (insts (ir s h))")
    case True
    with False assms(1) createBarriers_diff_fault[of e h s] show ?thesis by simp
  next
    case np: False
    with False assms createBarriers_diff[of e h s] show ?thesis by auto
  qed
qed

lemma runOnLoop_False_events:
  assumes "runOnLoop env L s = Inr (False, s')"
  shows "\<exists>evs. log s' = log s @ evs \<and> filter isCreate evs = []"
  using assms
  by (auto simp: runOnLoop_def ProcessLoop_def AddInnerLoopBarrier_def scanLoop_eq found_iff
      emit_def Let_def createBarriers_def scan_events_no_create
      split: option.splits if_splits instr.splits)

text \<open>
  C2. Whenever \<open>runOnLoop\<close> returns false, whichever check failed, the store it returns is
  the store it was given: every block has the instructions and the terminator it had. No
  marker was created on such a run, and a run that returns true has created two: no
  returning run creates one marker only. On a loop with a well-formed header block every
  run returns.
\<close>

theorem false_leaves_ir_unchanged:
  "(\<forall>b s'. runOnLoop env L s = Inr (b, s') \<longrightarrow>
       (\<exists>evs. log s' = log s @ evs \<and> length (filter isCreate evs) = (if b then 2 else 0))
     \<and> (\<not> b \<longrightarrow> ir s' = ir s))
   \<and> (\<forall>h. getHeader L = Some h \<and> wf_block (insts (ir s h)) \<longrightarrow>
         (\<exists>b s'. runOnLoop env L s = Inr (b, s')))"
proof (intro conjI allI impI)
  fix b s' assume r: "runOnLoop env L s = Inr (b, s')"
  show "\<exists>evs. log s' = log s @ evs \<and> length (filter isCreate evs) = (if b then 2 else 0)"
  proof (cases b)
    case False
    with r runOnLoop_False_events[of env L s s'] show ?thesis by auto
  next
    case True
    with r runOnLoop_True_elim[of env L s s'] obtain h e c t1 t2 where
      t: "getTerminator (insts (ir s e)) = Some (CondBr c t1 t2)"
      and cb: "createBarriers e h (s\<lparr>log := log s @ pass_events (ir s) L h e c\<rparr>) = Inr (True, s')"
      by auto
    from condbr_terminator[OF t] createBarriers_effect[OF cb]
    have "log s' = log s @ (pass_events (ir s) L h e c @
        [BarrierCreate e (length (insts (ir s e)) - 1),
         BarrierCreate h (length (takeWhile isPHI (insts (ir s h))))])"
      by simp
    moreover have "length (filter isCreate (pass_events (ir s) L h e c @
        [BarrierCreate e (length (insts (ir s e)) - 1),
         BarrierCreate h (length (takeWhile isPHI (insts (ir s h))))])) = 2"
      by (simp add: pass_events_no_create)
    ultimately show ?thesis using True by metis
  qed
next
  fix b s' assume r: "runOnLoop env L s = Inr (b, s')" and "\<not> b"
  then have "runOnLoop env L s = Inr (False, s')" by simp
  from runOnLoop_False_frame[OF this] show "ir s' = ir s" by simp
next
  fix h assume "getHeader L = Some h \<and> wf_block (insts (ir s h))"
  then show "\<exists>b s'. runOnLoop env L s = Inr (b, s')"
    using runOnLoop_returns wf_block_nonphi by blast
qed

lemmas run_defs = runOnLoop_def ProcessLoop_def AddInnerLoopBarrier_def createBarriers_def
  Barrier_Create_def emit_def getExitingBlock_def getExitingBlocks_def succ_blocks_def
  getTerminator_def getFirstNonPHI_def Let_def

lemma ex_run_true:
  "runOnLoop ex_env ex_loop \<lparr>ir = ex_ir, log = []\<rparr> =
     Inr (True,
       \<lparr>ir = ex_ir(2 := \<lparr>parent = 7, insts = [Other 12, Barrier, CondBr 13 1 3]\<rparr>,
                   1 := \<lparr>parent = 7, insts = [PHI 10, Barrier, Other 11, Br 2]\<rparr>),
        log = [KernelCheck 7 True, BarrierScan 1 False, BarrierScan 2 False, SubLoopCheck 0,
               ExitingBlockCheck (Some 2), HeaderCheck (Some 1), UniformBlockQuery 7 1 True,
               UniformValueQuery 7 13 True, BarrierCreate 2 1, BarrierCreate 1 1]\<rparr>)"
  by (simp add: run_defs ex_env_def ex_loop_def ex_ir_def)

lemma ex_run_header_not_uniform:
  "runOnLoop (ex_env\<lparr>isUniformBlock := (\<lambda>f b. False)\<rparr>) ex_loop \<lparr>ir = ex_ir, log = []\<rparr> =
     Inr (False,
       \<lparr>ir = ex_ir,
        log = [KernelCheck 7 True, BarrierScan 1 False, BarrierScan 2 False, SubLoopCheck 0,
               ExitingBlockCheck (Some 2), HeaderCheck (Some 1), UniformBlockQuery 7 1 False]\<rparr>)"
  by (simp add: run_defs ex_env_def ex_loop_def ex_ir_def)

theorem false_leaves_ir_unchanged_witness:
  "(\<exists>s'. runOnLoop (ex_env\<lparr>isUniformBlock := (\<lambda>f b. False)\<rparr>) ex_loop \<lparr>ir = ex_ir, log = []\<rparr>
           = Inr (False, s') \<and> ir s' = ex_ir \<and> length (filter isCreate (log s')) = 0)
   \<and> (\<exists>s'. runOnLoop ex_env ex_loop \<lparr>ir = ex_ir, log = []\<rparr> = Inr (True, s')
           \<and> length (filter isCreate (log s')) = 2)
   \<and> wf_block (insts (ex_ir 1))
   \<and> (\<exists>b s'. runOnLoop ex_env ex_loop \<lparr>ir = ex_ir, log = []\<rparr> = Inr (b, s'))"
proof -
  let ?s = "\<lparr>ir = ex_ir, log = []\<rparr>"
  have h: "getHeader ex_loop = Some 1" by (simp add: ex_loop_def)
  from false_leaves_ir_unchanged[of "ex_env\<lparr>isUniformBlock := (\<lambda>f b. False)\<rparr>" ex_loop ?s]
    ex_run_header_not_uniform
  have a: "\<exists>s'. runOnLoop (ex_env\<lparr>isUniformBlock := (\<lambda>f b. False)\<rparr>) ex_loop ?s
           = Inr (False, s') \<and> ir s' = ex_ir \<and> length (filter isCreate (log s')) = 0"
    by auto
  from false_leaves_ir_unchanged[of ex_env ex_loop ?s] ex_run_true
  have b: "\<exists>s'. runOnLoop ex_env ex_loop ?s = Inr (True, s')
           \<and> length (filter isCreate (log s')) = 2"
    by auto
  from false_leaves_ir_unchanged[of ex_env ex_loop ?s] h ex_wf_header
  have c: "\<exists>b s'. runOnLoop ex_env ex_loop ?s = Inr (b, s')"
    by (metis (no_types, lifting) state.select_convs(1))
  from a b c ex_wf_header show ?thesis by blast
qed

lemma sum_list_bump:
  assumes "distinct bs" and "x \<in> set bs" and "g x = f x + k"
    and "\<forall>y\<in>set bs. y \<noteq> x \<longrightarrow> g y = f y"
  shows "sum_list (map g bs) = sum_list (map f bs) + (k::nat)"
  using assms
proof (induction bs)
  case Nil then show ?case by simp
next
  case (Cons a bs)
  show ?case
  proof (cases "a = x")
    case True
    with Cons.prems have "x \<notin> set bs" by simp
    with Cons.prems(4) have "map g bs = map f bs" by (intro map_cong) auto
    then have "sum_list (map g bs) = sum_list (map f bs)" by (rule arg_cong)
    with True Cons.prems(3) show ?thesis by simp
  next
    case False
    with Cons.prems have "x \<in> set bs" "distinct bs" "\<forall>y\<in>set bs. y \<noteq> x \<longrightarrow> g y = f y" "g a = f a"
      by auto
    with Cons.IH Cons.prems(3) show ?thesis by simp
  qed
qed

lemma grouped_phis:
  assumes "list_all (\<lambda>i. \<not> isPHI i) (dropWhile isPHI xs)"
  shows "takeWhile isPHI xs = filter isPHI xs"
  using assms
proof (induction xs)
  case Nil then show ?case by simp
next
  case (Cons a xs)
  show ?case
  proof (cases "isPHI a")
    case True
    with Cons show ?thesis by simp
  next
    case False
    with Cons.prems have "\<forall>i\<in>set xs. \<not> isPHI i" by (simp add: list_all_iff)
    then have "filter isPHI xs = []" by (simp add: filter_empty_conv)
    with False show ?thesis by simp
  qed
qed

lemma createBarriers_shape:
  assumes "createBarriers e h s = Inr (b, s')"
    and "insts (ir s e) \<noteq> []" and "\<not> isPHI (last (insts (ir s e)))"
  shows "(e = h \<and> (\<exists>ps rs y. insts (ir s h) = ps @ rs @ [y]
                    \<and> insts (ir s' h) = ps @ Barrier # rs @ [Barrier, y]))
       \<or> (e \<noteq> h \<and> (\<exists>ys y ps rs. insts (ir s e) = ys @ [y] \<and> insts (ir s' e) = ys @ [Barrier, y]
                    \<and> insts (ir s h) = ps @ rs \<and> insts (ir s' h) = ps @ Barrier # rs))"
proof -
  note eff = createBarriers_effect[OF assms]
  let ?E = "insts (ir s e)"
  let ?H = "insts (ir s h)"
  have bl: "?E = butlast ?E @ [last ?E]"
    using assms(2) by simp
  show ?thesis
  proof (cases "e = h")
    case True
    have tw: "takeWhile isPHI ?H = takeWhile isPHI (butlast ?H)"
      using takeWhile_butlast[of ?H isPHI] assms(2,3) True by simp
    have "butlast ?H = takeWhile isPHI (butlast ?H) @ dropWhile isPHI (butlast ?H)" by simp
    with bl True have 1: "?H = takeWhile isPHI (butlast ?H) @ dropWhile isPHI (butlast ?H) @ [last ?H]"
      by (metis append.assoc)
    from eff True tw
    have 2: "insts (ir s' h) = takeWhile isPHI (butlast ?H) @ Barrier #
            dropWhile isPHI (butlast ?H) @ [Barrier, last ?H]"
      by simp
    have "\<exists>ps rs y. ?H = ps @ rs @ [y] \<and> insts (ir s' h) = ps @ Barrier # rs @ [Barrier, y]"
      apply (rule exI[of _ "takeWhile isPHI (butlast ?H)"])
      apply (rule exI[of _ "dropWhile isPHI (butlast ?H)"])
      apply (rule exI[of _ "last ?H"])
      apply (rule conjI[OF 1 2])
      done
    with True show ?thesis by simp
  next
    case False
    have td: "?H = takeWhile isPHI ?H @ dropWhile isPHI ?H"
      by simp
    from eff False have e': "insts (ir s' e) = butlast ?E @ [Barrier, last ?E]"
      and h': "insts (ir s' h) = takeWhile isPHI ?H @ Barrier # dropWhile isPHI ?H"
      by simp_all
    have "\<exists>ys y ps rs. ?E = ys @ [y] \<and> insts (ir s' e) = ys @ [Barrier, y]
                    \<and> ?H = ps @ rs \<and> insts (ir s' h) = ps @ Barrier # rs"
      apply (rule exI[of _ "butlast ?E"])
      apply (rule exI[of _ "last ?E"])
      apply (rule exI[of _ "takeWhile isPHI ?H"])
      apply (rule exI[of _ "dropWhile isPHI ?H"])
      apply (intro conjI bl e' td h')
      done
    with False show ?thesis by simp
  qed
qed

lemma createBarriers_filter:
  assumes "createBarriers e h s = Inr (b, s')"
    and "insts (ir s e) \<noteq> []" and "\<not> isPHI (last (insts (ir s e)))"
  shows "filter (\<lambda>i. \<not> isBarrier i) (insts (ir s' x)) = filter (\<lambda>i. \<not> isBarrier i) (insts (ir s x))"
proof -
  from createBarriers_effect[OF assms]
  have other: "x \<noteq> h \<and> x \<noteq> e \<longrightarrow> ir s' x = ir s x" by blast
  from createBarriers_shape[OF assms] other show ?thesis
    by (cases "x = h"; cases "x = e") auto
qed

lemma createBarriers_count:
  assumes "createBarriers e h s = Inr (b, s')"
    and "insts (ir s e) \<noteq> []" and "\<not> isPHI (last (insts (ir s e)))"
    and "distinct bs" and "h \<in> set bs" and "e \<in> set bs"
  shows "barrier_count (ir s') bs = barrier_count (ir s) bs + 2"
proof -
  let ?f = "\<lambda>x. length (filter isBarrier (insts (ir s x)))"
  let ?g = "\<lambda>x. length (filter isBarrier (insts (ir s' x)))"
  from createBarriers_effect[OF assms(1-3)]
  have other: "?g x = ?f x" if "x \<noteq> h" "x \<noteq> e" for x using that by simp
  note shape = createBarriers_shape[OF assms(1-3)]
  show ?thesis
  proof (cases "e = h")
    case True
    with shape have gh: "?g h = ?f h + 2" by auto
    have "sum_list (map ?g bs) = sum_list (map ?f bs) + 2"
      using assms(4,5) gh other True
      by (intro sum_list_bump[where x = h]) auto
    then show ?thesis by (simp add: barrier_count_def)
  next
    case False
    let ?m = "\<lambda>x. if x = e then ?f x + 1 else ?f x"
    from shape False have ge: "?g e = ?f e + 1" and gh: "?g h = ?f h + 1" by auto
    have 1: "sum_list (map ?m bs) = sum_list (map ?f bs) + 1"
      using assms(4,6) by (intro sum_list_bump[where x = e]) auto
    have 2: "sum_list (map ?g bs) = sum_list (map ?m bs) + 1"
      using assms(4,5) False gh ge other by (intro sum_list_bump[where x = h]) auto
    from 1 2 show ?thesis by (simp add: barrier_count_def)
  qed
qed

text \<open>
  C3. When \<open>runOnLoop\<close> returns true, the loop has a header \<open>h\<close> and one exiting block
  \<open>e\<close>, and the new store differs from the old one in these two blocks only, by two
  barriers: the exiting block now ends with a barrier followed by its old terminator, and
  the header block has a barrier after its leading phi nodes and before its first other
  instruction (when header and exiting block are one block, both barriers are in it).
  With the barriers taken out, every block holds its old instructions in their old
  order, and the number of barriers in any set of blocks that holds \<open>h\<close> and \<open>e\<close> has
  grown by two. In a well-formed header block the leading phi nodes are all its phi
  nodes. The barrier is inserted as the spec has \<^verbatim>\<open>Barrier::Create\<close> insert it.
\<close>

theorem true_adds_two_barriers:
  assumes "runOnLoop env L s = Inr (True, s')"
  shows "\<exists>h e. getHeader L = Some h \<and> getExitingBlocks (ir s) L = [e]
     \<and> getTerminator (insts (ir s e)) = Some (last (insts (ir s e)))
     \<and> (e \<noteq> h \<longrightarrow>
           insts (ir s' e) = butlast (insts (ir s e)) @ [Barrier, last (insts (ir s e))]
         \<and> insts (ir s' h) = takeWhile isPHI (insts (ir s h)) @ Barrier # dropWhile isPHI (insts (ir s h)))
     \<and> (e = h \<longrightarrow>
           insts (ir s' h) = takeWhile isPHI (insts (ir s h)) @ Barrier #
              dropWhile isPHI (butlast (insts (ir s h))) @ [Barrier, last (insts (ir s h))])
     \<and> (\<forall>x. x \<noteq> h \<and> x \<noteq> e \<longrightarrow> ir s' x = ir s x)
     \<and> (\<forall>x. parent (ir s' x) = parent (ir s x))
     \<and> (\<forall>x. filter (\<lambda>i. \<not> isBarrier i) (insts (ir s' x)) = filter (\<lambda>i. \<not> isBarrier i) (insts (ir s x)))
     \<and> (\<forall>bs. distinct bs \<and> h \<in> set bs \<and> e \<in> set bs \<longrightarrow>
            barrier_count (ir s') bs = barrier_count (ir s) bs + 2)
     \<and> (wf_block (insts (ir s h)) \<longrightarrow>
            takeWhile isPHI (insts (ir s h)) = filter isPHI (insts (ir s h)))"
proof -
  from runOnLoop_True_elim[OF assms] obtain h e c t1 t2 where
    h: "getHeader L = Some h" and ex: "getExitingBlocks (ir s) L = [e]"
    and t: "getTerminator (insts (ir s e)) = Some (CondBr c t1 t2)"
    and cb: "createBarriers e h (s\<lparr>log := log s @ pass_events (ir s) L h e c\<rparr>) = Inr (True, s')"
    by blast
  let ?s5 = "s\<lparr>log := log s @ pass_events (ir s) L h e c\<rparr>"
  from condbr_terminator[OF t] have ne: "insts (ir ?s5 e) \<noteq> []"
    and np: "\<not> isPHI (last (insts (ir ?s5 e)))" and la: "last (insts (ir s e)) = CondBr c t1 t2"
    by simp_all
  from createBarriers_effect[OF cb ne np]
  have eff: "(e \<noteq> h \<longrightarrow>
           insts (ir s' e) = butlast (insts (ir s e)) @ [Barrier, last (insts (ir s e))]
         \<and> insts (ir s' h) = takeWhile isPHI (insts (ir s h)) @ Barrier # dropWhile isPHI (insts (ir s h)))"
     "(e = h \<longrightarrow>
           insts (ir s' h) = takeWhile isPHI (insts (ir s h)) @ Barrier #
              dropWhile isPHI (butlast (insts (ir s h))) @ [Barrier, last (insts (ir s h))])"
     "(\<forall>x. x \<noteq> h \<and> x \<noteq> e \<longrightarrow> ir s' x = ir s x)"
     "(\<forall>x. parent (ir s' x) = parent (ir s x))"
    by simp_all
  have fl: "\<forall>x. filter (\<lambda>i. \<not> isBarrier i) (insts (ir s' x)) = filter (\<lambda>i. \<not> isBarrier i) (insts (ir s x))"
    using createBarriers_filter[OF cb ne np] by simp
  have cnt: "\<forall>bs. distinct bs \<and> h \<in> set bs \<and> e \<in> set bs \<longrightarrow>
            barrier_count (ir s') bs = barrier_count (ir s) bs + 2"
    using createBarriers_count[OF cb ne np] by simp
  have gp: "wf_block (insts (ir s h)) \<longrightarrow>
            takeWhile isPHI (insts (ir s h)) = filter isPHI (insts (ir s h))"
    by (simp add: wf_block_def grouped_phis)
  from t la have t': "getTerminator (insts (ir s e)) = Some (last (insts (ir s e)))" by simp
  show ?thesis
    apply (rule exI[of _ h])
    apply (rule exI[of _ e])
    apply (intro conjI h ex t' eff fl cnt gp)
    done
qed

lemma ex_run1_true:
  "runOnLoop ex_env ex_loop1 \<lparr>ir = ex_ir1, log = []\<rparr> =
     Inr (True,
       \<lparr>ir = ex_ir1(1 := \<lparr>parent = 7, insts = [PHI 10, Barrier, Other 11, Barrier, CondBr 13 1 3]\<rparr>),
        log = [KernelCheck 7 True, BarrierScan 1 False, SubLoopCheck 0,
               ExitingBlockCheck (Some 1), HeaderCheck (Some 1), UniformBlockQuery 7 1 True,
               UniformValueQuery 7 13 True, BarrierCreate 1 2, BarrierCreate 1 1]\<rparr>)"
  by (simp add: run_defs ex_env_def ex_loop1_def ex_ir1_def ex_ir_def)

theorem true_adds_two_barriers_witness:
  "(\<exists>s'. runOnLoop ex_env ex_loop \<lparr>ir = ex_ir, log = []\<rparr> = Inr (True, s')
       \<and> insts (ir s' 2) = [Other 12, Barrier, CondBr 13 1 3]
       \<and> insts (ir s' 1) = [PHI 10, Barrier, Other 11, Br 2]
       \<and> ir s' 0 = ex_ir 0 \<and> ir s' 3 = ex_ir 3
       \<and> barrier_count ex_ir [0, 1, 2, 3] = 0
       \<and> barrier_count (ir s') [0, 1, 2, 3] = 2)
   \<and> (\<exists>s'. runOnLoop ex_env ex_loop1 \<lparr>ir = ex_ir1, log = []\<rparr> = Inr (True, s')
       \<and> insts (ir s' 1) = [PHI 10, Barrier, Other 11, Barrier, CondBr 13 1 3]
       \<and> barrier_count (ir s') [0, 1, 2, 3] = 2)
   \<and> wf_block (insts (ex_ir 1))"
proof -
  let ?s = "\<lparr>ir = ex_ir, log = []\<rparr>"
  let ?t = "\<lparr>ir = ex_ir1, log = []\<rparr>"
  obtain s' where r: "runOnLoop ex_env ex_loop ?s = Inr (True, s')"
    using ex_run_true by blast
  from true_adds_two_barriers[OF r] obtain h e where
    h: "getHeader ex_loop = Some h" and e: "getExitingBlocks (ir ?s) ex_loop = [e]"
    and d: "e \<noteq> h \<longrightarrow>
           insts (ir s' e) = butlast (insts (ir ?s e)) @ [Barrier, last (insts (ir ?s e))]
         \<and> insts (ir s' h) = takeWhile isPHI (insts (ir ?s h)) @ Barrier # dropWhile isPHI (insts (ir ?s h))"
    and o: "\<forall>x. x \<noteq> h \<and> x \<noteq> e \<longrightarrow> ir s' x = ir ?s x"
    and c: "\<forall>bs. distinct bs \<and> h \<in> set bs \<and> e \<in> set bs \<longrightarrow>
            barrier_count (ir s') bs = barrier_count (ir ?s) bs + 2"
    by blast
  from h have h1: "h = 1" by (simp add: ex_loop_def)
  from e have e2: "e = 2" by (simp add: ex_exiting)
  have z: "barrier_count ex_ir [0, 1, 2, 3] = 0" by (simp add: barrier_count_def ex_ir_def)
  from d h1 e2 have i: "insts (ir s' 2) = [Other 12, Barrier, CondBr 13 1 3]"
    "insts (ir s' 1) = [PHI 10, Barrier, Other 11, Br 2]"
    by (simp_all add: ex_ir_def)
  from o h1 e2 have u: "ir s' 0 = ex_ir 0" "ir s' 3 = ex_ir 3" by simp_all
  from c h1 e2 have "distinct [0, 1, 2, 3::nat] \<and> (1::nat) \<in> set [0, 1, 2, 3] \<and> (2::nat) \<in> set [0, 1, 2, 3]
      \<longrightarrow> barrier_count (ir s') [0, 1, 2, 3] = barrier_count (ir ?s) [0, 1, 2, 3] + 2"
    by blast
  with z have n: "barrier_count (ir s') [0, 1, 2, 3] = 2" by simp
  have A: "\<exists>s'. runOnLoop ex_env ex_loop ?s = Inr (True, s')
       \<and> insts (ir s' 2) = [Other 12, Barrier, CondBr 13 1 3]
       \<and> insts (ir s' 1) = [PHI 10, Barrier, Other 11, Br 2]
       \<and> ir s' 0 = ex_ir 0 \<and> ir s' 3 = ex_ir 3
       \<and> barrier_count ex_ir [0, 1, 2, 3] = 0
       \<and> barrier_count (ir s') [0, 1, 2, 3] = 2"
    using r i u z n by blast
  obtain t' where r1: "runOnLoop ex_env ex_loop1 ?t = Inr (True, t')"
    using ex_run1_true by blast
  have x1: "getExitingBlocks ex_ir1 ex_loop1 = [1]"
    by (simp add: getExitingBlocks_def succ_blocks_def getTerminator_def ex_ir1_def ex_ir_def
        ex_loop1_def)
  from true_adds_two_barriers[OF r1] obtain h' e' where
    h': "getHeader ex_loop1 = Some h'" and e': "getExitingBlocks (ir ?t) ex_loop1 = [e']"
    and d': "e' = h' \<longrightarrow>
           insts (ir t' h') = takeWhile isPHI (insts (ir ?t h')) @ Barrier #
              dropWhile isPHI (butlast (insts (ir ?t h'))) @ [Barrier, last (insts (ir ?t h'))]"
    and c': "\<forall>bs. distinct bs \<and> h' \<in> set bs \<and> e' \<in> set bs \<longrightarrow>
            barrier_count (ir t') bs = barrier_count (ir ?t) bs + 2"
    by blast
  from h' have h'1: "h' = 1" by (simp add: ex_loop1_def)
  from e' have e'1: "e' = 1" by (simp add: x1)
  from d' h'1 e'1 have i': "insts (ir t' 1) = [PHI 10, Barrier, Other 11, Barrier, CondBr 13 1 3]"
    by (simp add: ex_ir1_def)
  have z': "barrier_count ex_ir1 [0, 1, 2, 3] = 0"
    by (simp add: barrier_count_def ex_ir1_def ex_ir_def)
  from c' h'1 e'1 have "distinct [0, 1, 2, 3::nat] \<and> (1::nat) \<in> set [0, 1, 2, 3] \<and> (1::nat) \<in> set [0, 1, 2, 3]
      \<longrightarrow> barrier_count (ir t') [0, 1, 2, 3] = barrier_count (ir ?t) [0, 1, 2, 3] + 2"
    by blast
  with z' have n': "barrier_count (ir t') [0, 1, 2, 3] = 2" by simp
  have B: "\<exists>s'. runOnLoop ex_env ex_loop1 ?t = Inr (True, s')
       \<and> insts (ir s' 1) = [PHI 10, Barrier, Other 11, Barrier, CondBr 13 1 3]
       \<and> barrier_count (ir s') [0, 1, 2, 3] = 2"
    using r1 i' n' by blast
  from A B ex_wf_header show ?thesis by blast
qed

lemma runOnLoop_barrier_loop:
  assumes "getHeader L = Some h" and "\<exists>x\<in>set (getBlocks L). Barrier \<in> set (insts (ir s x))"
  shows "\<exists>s'. runOnLoop env L s = Inr (False, s') \<and> ir s' = ir s"
  using assms
  by (auto simp: runOnLoop_def ProcessLoop_def scanLoop_eq found_iff emit_def Let_def)

text \<open>
  C4. On a loop one of whose blocks holds a barrier \<open>runOnLoop\<close> returns false and leaves
  the store as it was. After a run that returned true the exiting block, which is a block
  of the loop, holds a barrier (and so does the header block); so a second run on the same
  loop returns false, leaves the store as the first run left it, and creates no marker.
\<close>

theorem barrier_loop_rejected:
  assumes "getHeader L = Some h"
  shows "((\<exists>x\<in>set (getBlocks L). Barrier \<in> set (insts (ir s x))) \<longrightarrow>
            (\<exists>s'. runOnLoop env L s = Inr (False, s') \<and> ir s' = ir s))
     \<and> (\<forall>s1. runOnLoop env L s = Inr (True, s1) \<longrightarrow>
            (\<exists>e. getExitingBlocks (ir s) L = [e] \<and> e \<in> set (getBlocks L)
                \<and> Barrier \<in> set (insts (ir s1 e)) \<and> Barrier \<in> set (insts (ir s1 h)))
          \<and> (\<exists>s2 evs. runOnLoop env L s1 = Inr (False, s2) \<and> ir s2 = ir s1
                \<and> log s2 = log s1 @ evs \<and> filter isCreate evs = []))"
proof (intro conjI allI impI)
  assume "\<exists>x\<in>set (getBlocks L). Barrier \<in> set (insts (ir s x))"
  with assms show "\<exists>s'. runOnLoop env L s = Inr (False, s') \<and> ir s' = ir s"
    by (rule runOnLoop_barrier_loop)
next
  fix s1 assume r: "runOnLoop env L s = Inr (True, s1)"
  from runOnLoop_True_elim[OF r] assms obtain e c t1 t2 where
    ex: "getExitingBlocks (ir s) L = [e]"
    and t: "getTerminator (insts (ir s e)) = Some (CondBr c t1 t2)"
    and cb: "createBarriers e h (s\<lparr>log := log s @ pass_events (ir s) L h e c\<rparr>) = Inr (True, s1)"
    by auto
  let ?s5 = "s\<lparr>log := log s @ pass_events (ir s) L h e c\<rparr>"
  from condbr_terminator[OF t] have ne: "insts (ir ?s5 e) \<noteq> []"
    and np: "\<not> isPHI (last (insts (ir ?s5 e)))"
    by simp_all
  from createBarriers_shape[OF cb ne np]
  have be: "Barrier \<in> set (insts (ir s1 e))" and bh: "Barrier \<in> set (insts (ir s1 h))"
    by auto
  have ein: "e \<in> set (getBlocks L)" by (rule exiting_in_loop[OF ex])
  from ex ein be bh
  show "\<exists>e. getExitingBlocks (ir s) L = [e] \<and> e \<in> set (getBlocks L)
                \<and> Barrier \<in> set (insts (ir s1 e)) \<and> Barrier \<in> set (insts (ir s1 h))"
    by blast
  from ein be have "\<exists>x\<in>set (getBlocks L). Barrier \<in> set (insts (ir s1 x))" by blast
  from runOnLoop_barrier_loop[OF assms this] obtain s2 where
    r2: "runOnLoop env L s1 = Inr (False, s2)" and i2: "ir s2 = ir s1" by blast
  from runOnLoop_False_events[OF r2] obtain evs where
    "log s2 = log s1 @ evs" "filter isCreate evs = []" by blast
  with r2 i2
  show "\<exists>s2 evs. runOnLoop env L s1 = Inr (False, s2) \<and> ir s2 = ir s1
                \<and> log s2 = log s1 @ evs \<and> filter isCreate evs = []"
    by blast
qed

theorem barrier_loop_rejected_witness:
  "getHeader ex_loop = Some 1
   \<and> (\<exists>s'. runOnLoop ex_env ex_loop
               \<lparr>ir = ex_ir(2 := \<lparr>parent = 7, insts = [Barrier, CondBr 13 1 3]\<rparr>), log = []\<rparr>
             = Inr (False, s')
           \<and> ir s' = ex_ir(2 := \<lparr>parent = 7, insts = [Barrier, CondBr 13 1 3]\<rparr>))
   \<and> (\<exists>s1. runOnLoop ex_env ex_loop \<lparr>ir = ex_ir, log = []\<rparr> = Inr (True, s1)
        \<and> Barrier \<in> set (insts (ir s1 2)) \<and> Barrier \<in> set (insts (ir s1 1))
        \<and> (\<exists>s2. runOnLoop ex_env ex_loop s1 = Inr (False, s2) \<and> ir s2 = ir s1))"
proof -
  let ?s = "\<lparr>ir = ex_ir, log = []\<rparr>"
  let ?b = "\<lparr>ir = ex_ir(2 := \<lparr>parent = 7, insts = [Barrier, CondBr 13 1 3]\<rparr>), log = []\<rparr>"
  have h: "getHeader ex_loop = Some 1" by (simp add: ex_loop_def)
  have "\<exists>x\<in>set (getBlocks ex_loop). Barrier \<in> set (insts (ir ?b x))"
    by (simp add: ex_loop_def)
  with barrier_loop_rejected[OF h, of ?b ex_env]
  have "\<exists>s'. runOnLoop ex_env ex_loop ?b = Inr (False, s') \<and> ir s' = ir ?b"
    by blast
  then have first: "\<exists>s'. runOnLoop ex_env ex_loop ?b = Inr (False, s')
           \<and> ir s' = ex_ir(2 := \<lparr>parent = 7, insts = [Barrier, CondBr 13 1 3]\<rparr>)"
    by simp
  obtain s1 where r: "runOnLoop ex_env ex_loop ?s = Inr (True, s1)"
    using ex_run_true by blast
  from barrier_loop_rejected[OF h, of ?s ex_env] r obtain e where
    e: "getExitingBlocks (ir ?s) ex_loop = [e]"
    and b: "Barrier \<in> set (insts (ir s1 e))" "Barrier \<in> set (insts (ir s1 1))"
    and again: "\<exists>s2. runOnLoop ex_env ex_loop s1 = Inr (False, s2) \<and> ir s2 = ir s1"
    by blast
  from e have "e = 2" by (simp add: ex_exiting)
  with h r b again first show ?thesis by blast
qed

text \<open>
  C6. Let the loop pass the checks before the uniformity queries: its function is a kernel
  to process, no block of it holds a barrier, it has no sub-loops, one exiting block and a
  header. If the exiting block does not end in a conditional branch, \<open>runOnLoop\<close> returns
  false, the store is unchanged, and none of the events of the run is a uniformity query
  for a value, whatever the uniformity analysis would answer.
\<close>

theorem non_conditional_exit_rejected:
  assumes "getHeader L = Some h"
    and "isKernelToProcess env (parent (ir s h))"
    and "\<forall>x\<in>set (getBlocks L). Barrier \<notin> set (insts (ir s x))"
    and "getSubLoops L = []"
    and "getExitingBlocks (ir s) L = [e]"
    and "\<forall>c t1 t2. getTerminator (insts (ir s e)) \<noteq> Some (CondBr c t1 t2)"
  shows "\<exists>s' evs. runOnLoop env L s = Inr (False, s') \<and> ir s' = ir s
      \<and> log s' = log s @ evs \<and> (\<forall>f v r. UniformValueQuery f v r \<notin> set evs)"
proof -
  from exiting_has_terminator[OF assms(5)] obtain t where
    t: "getTerminator (insts (ir s e)) = Some t" by blast
  with assms(6) have nc: "\<forall>c t1 t2. t \<noteq> CondBr c t1 t2" by simp
  have x: "getExitingBlock (ir s) L = Some e" using assms(5) by (simp add: getExitingBlock_Some)
  have sc: "\<And>f v r. UniformValueQuery f v r \<notin> set (scan_events (ir s) (getBlocks L))"
    using scan_events_only by fastforce
  show ?thesis
  proof (cases "isUniformBlock env (parent (ir s e)) h")
    case False
    with assms(1-4) x sc show ?thesis
      by (simp add: runOnLoop_def ProcessLoop_def AddInnerLoopBarrier_def scanLoop_eq found_iff
          emit_def Let_def)
  next
    case True
    with assms(1-4) x t nc sc show ?thesis
      by (cases t) (simp_all add: runOnLoop_def ProcessLoop_def AddInnerLoopBarrier_def
          scanLoop_eq found_iff emit_def Let_def)
  qed
qed

lemma ex_br_exiting: "getExitingBlocks ex_ir_br ex_loop = [2]"
  by (simp add: getExitingBlocks_def succ_blocks_def getTerminator_def ex_ir_br_def ex_ir_def
      ex_loop_def)

theorem non_conditional_exit_rejected_witness:
  "getHeader ex_loop = Some 1 \<and> getExitingBlocks ex_ir_br ex_loop = [2]
   \<and> getTerminator (insts (ex_ir_br 2)) = Some (Br 3)
   \<and> (\<exists>s'. runOnLoop (ex_env\<lparr>isUniformValue := (\<lambda>f v. True)\<rparr>) ex_loop \<lparr>ir = ex_ir_br, log = []\<rparr>
           = Inr (False, s') \<and> ir s' = ex_ir_br
         \<and> list_all (\<lambda>ev. case ev of UniformValueQuery f v r \<Rightarrow> False | _ \<Rightarrow> True) (log s'))"
proof -
  let ?s = "\<lparr>ir = ex_ir_br, log = []\<rparr>"
  let ?env = "ex_env\<lparr>isUniformValue := (\<lambda>f v. True)\<rparr>"
  have h: "getHeader ex_loop = Some 1" by (simp add: ex_loop_def)
  have k: "isKernelToProcess ?env (parent (ir ?s 1))"
    by (simp add: ex_env_def ex_ir_br_def ex_ir_def)
  have nb: "\<forall>x\<in>set (getBlocks ex_loop). Barrier \<notin> set (insts (ir ?s x))"
    by (simp add: ex_loop_def ex_ir_br_def ex_ir_def)
  have sl: "getSubLoops ex_loop = []" by (simp add: ex_loop_def)
  have x: "getExitingBlocks (ir ?s) ex_loop = [2]" by (simp add: ex_br_exiting)
  have t: "getTerminator (insts (ex_ir_br 2)) = Some (Br 3)"
    by (simp add: getTerminator_def ex_ir_br_def)
  then have nc: "\<forall>c t1 t2. getTerminator (insts (ir ?s 2)) \<noteq> Some (CondBr c t1 t2)" by simp
  from non_conditional_exit_rejected[OF h k nb sl x nc] obtain s' evs where
    r: "runOnLoop ?env ex_loop ?s = Inr (False, s')" and i: "ir s' = ex_ir_br"
    and l: "log s' = evs" and q: "\<forall>f v r. UniformValueQuery f v r \<notin> set evs"
    by auto
  from q l have "list_all (\<lambda>ev. case ev of UniformValueQuery f v r \<Rightarrow> False | _ \<Rightarrow> True) (log s')"
    by (auto simp: list_all_iff split: event.splits)
  with h ex_br_exiting t r i show ?thesis by blast
qed

text \<open>
  C7. On a loop with a header that has no exiting block, or more than one, \<open>runOnLoop\<close>
  returns false and the store is unchanged; the run makes no uniformity query, and the
  result is the same under any other answers of the uniformity analysis.
\<close>

theorem not_single_exit_rejected:
  assumes "getHeader L = Some h" and "length (getExitingBlocks (ir s) L) \<noteq> 1"
  shows "\<exists>s' evs. runOnLoop env L s = Inr (False, s') \<and> ir s' = ir s
      \<and> log s' = log s @ evs
      \<and> (\<forall>f b r. UniformBlockQuery f b r \<notin> set evs)
      \<and> (\<forall>f v r. UniformValueQuery f v r \<notin> set evs)
      \<and> (\<forall>env'. isKernelToProcess env' = isKernelToProcess env \<longrightarrow>
            runOnLoop env' L s = runOnLoop env L s)"
proof -
  have x: "getExitingBlock (ir s) L = None" using assms(2) by (simp add: getExitingBlock_None)
  have sc: "\<And>f v r. UniformValueQuery f v r \<notin> set (scan_events (ir s) (getBlocks L))"
    "\<And>f b r. UniformBlockQuery f b r \<notin> set (scan_events (ir s) (getBlocks L))"
    using scan_events_only by fastforce+
  have ind: "runOnLoop env' L s = runOnLoop env L s"
    if "isKernelToProcess env' = isKernelToProcess env" for env'
    using assms(1) x that
    by (simp add: runOnLoop_def ProcessLoop_def AddInnerLoopBarrier_def scanLoop_eq found_iff
        emit_def Let_def)
  have "\<exists>s' evs. runOnLoop env L s = Inr (False, s') \<and> ir s' = ir s
      \<and> log s' = log s @ evs
      \<and> (\<forall>f b r. UniformBlockQuery f b r \<notin> set evs)
      \<and> (\<forall>f v r. UniformValueQuery f v r \<notin> set evs)"
    using assms(1) x sc
    by (simp add: runOnLoop_def ProcessLoop_def AddInnerLoopBarrier_def scanLoop_eq found_iff
        emit_def Let_def)
  with ind show ?thesis by blast
qed

lemma ex_two_exits: "getExitingBlocks ex_ir_two_exits ex_loop = [1, 2]"
  by (simp add: getExitingBlocks_def succ_blocks_def getTerminator_def ex_ir_two_exits_def
      ex_ir_def ex_loop_def)

lemma ex_no_exits: "getExitingBlocks ex_ir_no_exit ex_loop = []"
  by (simp add: getExitingBlocks_def succ_blocks_def getTerminator_def ex_ir_no_exit_def
      ex_ir_def ex_loop_def)

theorem not_single_exit_rejected_witness:
  "getHeader ex_loop = Some 1
   \<and> length (getExitingBlocks ex_ir_two_exits ex_loop) = 2
   \<and> (\<exists>s'. runOnLoop ex_env ex_loop \<lparr>ir = ex_ir_two_exits, log = []\<rparr> = Inr (False, s')
          \<and> ir s' = ex_ir_two_exits)
   \<and> length (getExitingBlocks ex_ir_no_exit ex_loop) = 0
   \<and> (\<exists>s'. runOnLoop ex_env ex_loop
            \<lparr>ir = ex_ir_no_exit, log = []\<rparr> = Inr (False, s')
          \<and> ir s' = ex_ir_no_exit)"
proof -
  let ?s = "\<lparr>ir = ex_ir_two_exits, log = []\<rparr>"
  let ?z = "\<lparr>ir = ex_ir_no_exit, log = []\<rparr>"
  have h: "getHeader ex_loop = Some 1" by (simp add: ex_loop_def)
  have n2: "length (getExitingBlocks (ir ?s) ex_loop) \<noteq> 1" by (simp add: ex_two_exits)
  have n0: "length (getExitingBlocks (ir ?z) ex_loop) \<noteq> 1" by (simp add: ex_no_exits)
  from not_single_exit_rejected[OF h n2, of ex_env]
  have a: "\<exists>s'. runOnLoop ex_env ex_loop ?s = Inr (False, s') \<and> ir s' = ex_ir_two_exits"
    by auto
  from not_single_exit_rejected[OF h n0, of ex_env]
  have b: "\<exists>s'. runOnLoop ex_env ex_loop ?z = Inr (False, s')
          \<and> ir s' = ex_ir_no_exit"
    by auto
  from h a b show ?thesis by (simp add: ex_two_exits ex_no_exits)
qed

lemma pass_events_not_create: "BarrierCreate x i \<notin> set (pass_events m L h e c)"
  using scan_events_only[of "BarrierCreate x i" m "getBlocks L"]
  by (auto simp: pass_events_def)

text \<open>
  C9. Let the header of the loop be one of its blocks, as it is in every \<^verbatim>\<open>llvm::Loop\<close>.
  Whatever a run of \<open>runOnLoop\<close> returns, every block outside the loop is in the new
  store what it was in the old one, and every marker the run created was created in a
  block of the loop: the header or the one exiting block.
\<close>

theorem writes_stay_in_loop:
  assumes "getHeader L = Some h" and "h \<in> set (getBlocks L)"
    and "runOnLoop env L s = Inr (b, s')"
  shows "(\<forall>x. x \<notin> set (getBlocks L) \<longrightarrow> ir s' x = ir s x)
     \<and> (\<exists>evs. log s' = log s @ evs
           \<and> (\<forall>x i. BarrierCreate x i \<in> set evs \<longrightarrow>
                 x \<in> set (getBlocks L) \<and> (x = h \<or> getExitingBlocks (ir s) L = [x])))"
proof (cases b)
  case False
  with assms(3) have r: "runOnLoop env L s = Inr (False, s')" by simp
  from runOnLoop_False_frame[OF r] show ?thesis by auto
next
  case True
  with assms(3) have r: "runOnLoop env L s = Inr (True, s')" by simp
  from runOnLoop_True_elim[OF r] assms(1) obtain e c t1 t2 where
    ex: "getExitingBlocks (ir s) L = [e]"
    and t: "getTerminator (insts (ir s e)) = Some (CondBr c t1 t2)"
    and cb: "createBarriers e h (s\<lparr>log := log s @ pass_events (ir s) L h e c\<rparr>) = Inr (True, s')"
    by auto
  let ?s5 = "s\<lparr>log := log s @ pass_events (ir s) L h e c\<rparr>"
  from condbr_terminator[OF t] have ne: "insts (ir ?s5 e) \<noteq> []"
    and np: "\<not> isPHI (last (insts (ir ?s5 e)))"
    by simp_all
  have ein: "e \<in> set (getBlocks L)" by (rule exiting_in_loop[OF ex])
  from createBarriers_effect[OF cb ne np]
  have other: "\<forall>x. x \<noteq> h \<and> x \<noteq> e \<longrightarrow> ir s' x = ir s x"
    and lg: "log s' = log s @ (pass_events (ir s) L h e c @
        [BarrierCreate e (length (insts (ir s e)) - 1),
         BarrierCreate h (length (takeWhile isPHI (insts (ir s h))))])"
    by simp_all
  from other ein assms(2) have frame: "\<forall>x. x \<notin> set (getBlocks L) \<longrightarrow> ir s' x = ir s x"
    by auto
  have "\<forall>x i. BarrierCreate x i \<in> set (pass_events (ir s) L h e c @
        [BarrierCreate e (length (insts (ir s e)) - 1),
         BarrierCreate h (length (takeWhile isPHI (insts (ir s h))))]) \<longrightarrow>
                 x \<in> set (getBlocks L) \<and> (x = h \<or> getExitingBlocks (ir s) L = [x])"
    using ein assms(2) ex by (auto simp: pass_events_not_create)
  with lg frame show ?thesis by blast
qed

theorem writes_stay_in_loop_witness:
  "getHeader ex_loop = Some 1 \<and> 1 \<in> set (getBlocks ex_loop)
   \<and> (\<exists>s'. runOnLoop ex_env ex_loop \<lparr>ir = ex_ir, log = []\<rparr> = Inr (True, s')
         \<and> ir s' 0 = ex_ir 0 \<and> ir s' 3 = ex_ir 3 \<and> ir s' 4 = ex_ir 4)"
proof -
  let ?s = "\<lparr>ir = ex_ir, log = []\<rparr>"
  have h: "getHeader ex_loop = Some 1" by (simp add: ex_loop_def)
  have m: "1 \<in> set (getBlocks ex_loop)" by (simp add: ex_loop_def)
  obtain s' where r: "runOnLoop ex_env ex_loop ?s = Inr (True, s')"
    using ex_run_true by blast
  from writes_stay_in_loop[OF h m r]
  have "\<forall>x. x \<notin> set (getBlocks ex_loop) \<longrightarrow> ir s' x = ir ?s x" by blast
  then have "ir s' 0 = ex_ir 0 \<and> ir s' 3 = ex_ir 3 \<and> ir s' 4 = ex_ir 4"
    by (simp add: ex_loop_def)
  with h m r show ?thesis by blast
qed

text \<open>
  C10. \<open>runOnLoop\<close> dereferences the header before anything else: on a loop without a
  header it stops on the null dereference. So a run that returns was on a loop with a
  header \<open>h\<close>, and every header check it recorded got \<open>h\<close>: the branch of
  \<open>AddInnerLoopBarrier\<close> for a missing header was not taken. Entered on its own with a
  loop without header, with no sub-loops and one exiting block, \<open>AddInnerLoopBarrier\<close>
  does take that branch.
\<close>

theorem header_guard_unreachable:
  "(getHeader L = None \<longrightarrow> runOnLoop env L s = Inl NullDeref)
   \<and> (\<forall>b s'. runOnLoop env L s = Inr (b, s') \<longrightarrow>
         (\<exists>h evs. getHeader L = Some h \<and> log s' = log s @ evs
            \<and> (\<forall>x. HeaderCheck x \<in> set evs \<longrightarrow> x = Some h)))
   \<and> (\<forall>e. getHeader L = None \<and> getSubLoops L = [] \<and> getExitingBlocks (ir s) L = [e] \<longrightarrow>
         AddInnerLoopBarrier env L s = Inr (False,
           s\<lparr>log := log s @ [SubLoopCheck 0, ExitingBlockCheck (Some e), HeaderCheck None]\<rparr>))"
proof (intro conjI allI impI)
  assume "getHeader L = None"
  then show "runOnLoop env L s = Inl NullDeref" by (simp add: runOnLoop_def)
next
  fix b s' assume r: "runOnLoop env L s = Inr (b, s')"
  then obtain h where h: "getHeader L = Some h"
    by (cases "getHeader L") (simp_all add: runOnLoop_def)
  have sc: "\<And>x. HeaderCheck x \<notin> set (scan_events (ir s) (getBlocks L))"
    using scan_events_only by fastforce
  from r h sc have "\<exists>evs. log s' = log s @ evs \<and> (\<forall>x. HeaderCheck x \<in> set evs \<longrightarrow> x = Some h)"
    by (auto simp: runOnLoop_def ProcessLoop_def AddInnerLoopBarrier_def createBarriers_def
        Barrier_Create_def emit_def Let_def scanLoop_eq
        split: option.splits instr.splits if_splits)
  with h show "\<exists>h evs. getHeader L = Some h \<and> log s' = log s @ evs
            \<and> (\<forall>x. HeaderCheck x \<in> set evs \<longrightarrow> x = Some h)"
    by blast
next
  fix e assume "getHeader L = None \<and> getSubLoops L = [] \<and> getExitingBlocks (ir s) L = [e]"
  then show "AddInnerLoopBarrier env L s = Inr (False,
           s\<lparr>log := log s @ [SubLoopCheck 0, ExitingBlockCheck (Some e), HeaderCheck None]\<rparr>)"
    by (simp add: AddInnerLoopBarrier_def emit_def Let_def getExitingBlock_def)
qed

theorem header_guard_unreachable_witness:
  "runOnLoop ex_env (Loop None [1, 2] []) \<lparr>ir = ex_ir, log = []\<rparr> = Inl NullDeref
   \<and> (\<exists>s'. runOnLoop ex_env ex_loop \<lparr>ir = ex_ir, log = []\<rparr> = Inr (True, s')
         \<and> HeaderCheck None \<notin> set (log s') \<and> HeaderCheck (Some 1) \<in> set (log s'))
   \<and> (\<exists>s'. AddInnerLoopBarrier ex_env (Loop None [1, 2] []) \<lparr>ir = ex_ir, log = []\<rparr> = Inr (False, s')
         \<and> HeaderCheck None \<in> set (log s'))"
proof -
  let ?s = "\<lparr>ir = ex_ir, log = []\<rparr>"
  let ?N = "Loop None [1, 2] []"
  note g = header_guard_unreachable[of ?N ex_env ?s]
  from g have a: "runOnLoop ex_env ?N ?s = Inl NullDeref" by simp
  have x: "getExitingBlocks (ir ?s) ?N = [2]"
    by (simp add: getExitingBlocks_def succ_blocks_def getTerminator_def ex_ir_def)
  from g x have c: "\<exists>s'. AddInnerLoopBarrier ex_env ?N ?s = Inr (False, s')
         \<and> HeaderCheck None \<in> set (log s')"
    by simp
  obtain s' where r: "runOnLoop ex_env ex_loop ?s = Inr (True, s')"
    and l: "HeaderCheck (Some 1) \<in> set (log s')"
    using ex_run_true by simp
  from header_guard_unreachable[of ex_loop ex_env ?s] r
  have "HeaderCheck None \<notin> set (log s')" by fastforce
  with r l have b: "\<exists>s'. runOnLoop ex_env ex_loop ?s = Inr (True, s')
         \<and> HeaderCheck None \<notin> set (log s') \<and> HeaderCheck (Some 1) \<in> set (log s')"
    by blast
  from a b c show ?thesis by blast
qed

end
